theory Spec2Isabelle
  imports Main
begin

section \<open>Python strings and the string methods the script calls\<close>

text \<open>
  A Python \<open>str\<close> is a sequence of Unicode code points; the script handles full-width
  and CJK punctuation, so a string is modelled as the list of its code points, each the
  integer \<open>ord\<close> gives. A one-character string (an element of an iteration,
  \<open>txt[-1]\<close>) is its code point, and \<open>c in s\<close> for such a \<open>c\<close> is membership in the
  code points of \<open>s\<close>.
\<close>

type_synonym pystr = "int list"

text \<open>An ASCII literal of the script, as its code points.\<close>

definition ascii :: "string \<Rightarrow> pystr" where
  "ascii s = map of_char s"

datatype error = NotImplementedError | IndexError | ValueError | KeyError | AttributeError

text \<open>
  \<open>str.isspace\<close> on one code point: the characters CPython's \<open>str.strip()\<close> removes
  (U+0009..U+000D, U+001C..U+0020, U+0085, U+00A0, U+1680, U+2000..U+200A, U+2028,
  U+2029, U+202F, U+205F, U+3000).
\<close>

definition isspace :: "int \<Rightarrow> bool" where
  "isspace c = ((0x9 \<le> c \<and> c \<le> 0xD) \<or> (0x1C \<le> c \<and> c \<le> 0x20) \<or> c = 0x85 \<or> c = 0xA0
     \<or> c = 0x1680 \<or> (0x2000 \<le> c \<and> c \<le> 0x200A) \<or> c = 0x2028 \<or> c = 0x2029
     \<or> c = 0x202F \<or> c = 0x205F \<or> c = 0x3000)"

definition lstrip :: "pystr \<Rightarrow> pystr" where
  "lstrip s = dropWhile isspace s"

definition rstrip :: "pystr \<Rightarrow> pystr" where
  "rstrip s = rev (dropWhile isspace (rev s))"

text \<open>\<open>s.strip()\<close>: leading and trailing whitespace removed.\<close>

definition strip :: "pystr \<Rightarrow> pystr" where
  "strip s = rstrip (lstrip s)"

text \<open>
  \<open>s.replace(old, new)\<close>: every non-overlapping occurrence of \<open>old\<close>, found left to
  right, is replaced by \<open>new\<close>; an empty \<open>old\<close> matches before every character and at the
  end.
\<close>

fun replace :: "pystr \<Rightarrow> pystr \<Rightarrow> pystr \<Rightarrow> pystr" where
  "replace [] old new = (if old = [] then new else [])"
| "replace (x # xs) old new =
     (if old = [] then new @ x # replace xs old new
      else if take (length old) (x # xs) = old
        then new @ replace (drop (length old) (x # xs)) old new
      else x # replace xs old new)"

text \<open>\<open>s.endswith(suffix)\<close>.\<close>

definition endswith :: "pystr \<Rightarrow> pystr \<Rightarrow> bool" where
  "endswith s suf = (length suf \<le> length s \<and> drop (length s - length suf) s = suf)"

text \<open>\<open>s[-1]\<close>: the last character, IndexError on the empty string.\<close>

definition last_char :: "pystr \<Rightarrow> error + int" where
  "last_char s = (if s = [] then Inl IndexError else Inr (last s))"

section \<open>The constants of \<open>prepare_TAT.py\<close>\<close>

text \<open>The three transcript types are the JSON keys of the corpus, CJK strings.\<close>

definition TAILO :: pystr where
  "TAILO = [0x53F0, 0x7F85]"

definition TAILONUM :: pystr where
  "TAILONUM = [0x53F0, 0x7F85, 0x6578, 0x5B57, 0x8ABF]"

definition TAIWEN :: pystr where
  "TAIWEN = [0x6F22, 0x7F85, 0x53F0, 0x6587]"

text \<open>
  \<open>CLEAN_MAPPING\<close>: a dict of dicts. A Python dict iterates in insertion order, and the
  validator iterates over \<open>items()\<close>, so each dict is an association list in source order.
  Keys of the TAILONUM map: U+FE56 small question mark, the full-width \<open>! % ( ) , : ; ?\<close>,
  U+2014 em dash, U+2500 box-drawing horizontal. Values of the TAIWEN map: the full-width
  \<open>? ? ! ( ) , : ;\<close>.
\<close>

definition CLEAN_MAPPING :: "(pystr \<times> (pystr \<times> pystr) list) list" where
  "CLEAN_MAPPING =
     [(TAILONUM,
        [([0xFE56], ascii ''?''),
         ([0xFF01], ascii ''!''),
         ([0xFF05], ascii ''%''),
         ([0xFF08], ascii ''(''),
         ([0xFF09], ascii '')''),
         ([0xFF0C], ascii '',''),
         ([0xFF1A], ascii '':''),
         ([0xFF1B], ascii '';''),
         ([0xFF1F], ascii ''?''),
         ([0x2014], ascii ''--''),
         ([0x2500], ascii ''-'')]),
      (TAIWEN,
        [([0xFE56], [0xFF1F]),
         (ascii ''?'', [0xFF1F]),
         (ascii ''!'', [0xFF01]),
         (ascii ''('', [0xFF08]),
         (ascii '')'', [0xFF09]),
         (ascii '','', [0xFF0C]),
         (ascii '':'', [0xFF1A]),
         (ascii '';'', [0xFF1B])])]"

text \<open>
  \<open>ACCEPTABLE_CHARS\<close>, the concatenation of the source's ten literals: digits, upper and
  lower case letters, nine accented vowels, the space, ASCII punctuation, curly quotes and
  the apostrophe, two ellipses, four CJK marks and the full-width hyphen-minus.
\<close>

definition ACCEPTABLE_CHARS :: pystr where
  "ACCEPTABLE_CHARS =
     ascii ''0123456789''
     @ ascii ''ABCDEFGHIJKLMNOPQRSTUVWXYZ''
     @ ascii ''abcdefghijklmnopqrstuvwxyz''
     @ [0xE0, 0xE1, 0xE9, 0xEC, 0xEE, 0xF2, 0xFA, 0x101, 0x14D]
     @ ascii '' ''
     @ [0x21, 0x22] @ ascii ''%()+,-./:;=?_~''
     @ [0x2018, 0x2019, 0x201C, 0x201D, 0x27]
     @ [0x2026, 0x22EF]
     @ [0x3001, 0x3002, 0x300E, 0x300F]
     @ [0xFF0D]"

section \<open>\<open>clean_text\<close>\<close>

text \<open>
  The last two statements of both branches: \<open>txt[-1]\<close> raises IndexError on the empty
  string, otherwise the terminal mark is appended unless the last character is in
  \<open>marks\<close>.
\<close>

definition append_terminal :: "pystr \<Rightarrow> pystr \<Rightarrow> pystr \<Rightarrow> error + pystr" where
  "append_terminal txt marks stop =
     (case last_char txt of
        Inl e \<Rightarrow> Inl e
      | Inr c \<Rightarrow> Inr (if c \<notin> set marks then txt @ stop else txt))"

definition clean_text :: "pystr \<Rightarrow> pystr \<Rightarrow> error + pystr" where
  "clean_text txt transcript_type =
     (if transcript_type = TAILONUM then
        let txt = strip txt;
            txt = replace txt [0x27] (ascii '' '');
            txt = replace txt [0x22] (ascii '' '');
            txt = replace txt [0x201C] (ascii '' '');
            txt = replace txt [0x201D] (ascii '' '');
            txt = replace txt (ascii '':'') (ascii '' '');
            txt = replace txt (ascii '')'') (ascii '' '');
            txt = replace txt (ascii ''('') (ascii '' '');
            txt = strip txt;
            txt = (if endswith txt (ascii '','') then butlast txt @ ascii ''.'' else txt)
        in append_terminal txt (ascii ''?!.'') (ascii ''.'')
      else if transcript_type = TAIWEN then
        let txt = (if endswith txt [0xFF0C] then butlast txt @ [0x3002] else txt)
        in append_terminal txt [0xFF1F, 0x3002, 0xFF01] [0x3002]
      else Inl NotImplementedError)"

section \<open>\<open>validate_transcription\<close>\<close>

text \<open>
  The line a rejection prints (to \<open>verbose_fp\<close>, standard output by default), kept as its
  fields: \<open>BadChar n c s\<close> is the line \<open>"{n}\t{c}\t: {s}"\<close> of the charset branch,
  \<open>BadRoundTrip n s\<close> the line \<open>"{n}\t {s}"\<close> of the tokenizer branch.
\<close>

datatype diag = BadChar int int pystr | BadRoundTrip int pystr

text \<open>
  The tokenizer is an external object: \<open>encode tok s\<close> is \<open>tok(s)["input_ids"]\<close> and
  \<open>decode tok ids\<close> is \<open>tok.decode(ids, skip_special_tokens=True)\<close>.
\<close>

record tokenizer =
  encode :: "pystr \<Rightarrow> int list"
  decode :: "int list \<Rightarrow> pystr"

text \<open>The loop \<open>for bad_char, good_char in mapping.items(): s = s.replace(...)\<close>.\<close>

fun apply_mapping :: "(pystr \<times> pystr) list \<Rightarrow> pystr \<Rightarrow> pystr" where
  "apply_mapping [] s = s"
| "apply_mapping ((bad_char, good_char) # rest) s = apply_mapping rest (replace s bad_char good_char)"

text \<open>
  The loop \<open>for c in cleaned_transcript\<close> over the characters still to scan, with the
  \<open>return\<close> inside it and the \<open>return\<close> after it. A result is the returned pair, flattened
  with the lines printed: (text or None, bad count, printed lines).
\<close>

type_synonym verdict = "pystr option \<times> int \<times> diag list"

fun check_chars :: "pystr \<Rightarrow> pystr \<Rightarrow> int \<Rightarrow> verdict" where
  "check_chars [] cleaned_transcript bad_count = (Some cleaned_transcript, bad_count, [])"
| "check_chars (c # cs) cleaned_transcript bad_count =
     (if c \<notin> set ACCEPTABLE_CHARS
      then (None, bad_count + 1, [BadChar (bad_count + 1) c cleaned_transcript])
      else check_chars cs cleaned_transcript bad_count)"

text \<open>\<open>d[key]\<close> on a dict: KeyError when the key is absent.\<close>

definition dict_get :: "('k \<times> 'v) list \<Rightarrow> 'k \<Rightarrow> error + 'v" where
  "dict_get d k = (case map_of d k of None \<Rightarrow> Inl KeyError | Some v \<Rightarrow> Inr v)"

text \<open>
  \<open>tokenizer\<close> defaults to \<open>None\<close>; the TAIWEN branch then fails on \<open>tokenizer.decode\<close>
  with AttributeError.
\<close>

definition validate_transcription ::
    "pystr \<Rightarrow> pystr \<Rightarrow> int \<Rightarrow> tokenizer option \<Rightarrow> error + verdict" where
  "validate_transcription transcript transcript_type bad_count tok =
     (if transcript_type = TAILONUM then
        (case dict_get CLEAN_MAPPING transcript_type of
           Inl e \<Rightarrow> Inl e
         | Inr m \<Rightarrow>
             let cleaned_transcript = apply_mapping m transcript
             in Inr (check_chars cleaned_transcript cleaned_transcript bad_count))
      else if transcript_type = TAIWEN then
        (case dict_get CLEAN_MAPPING transcript_type of
           Inl e \<Rightarrow> Inl e
         | Inr m \<Rightarrow>
             let cleaned_transcript = apply_mapping m transcript
             in (case tok of
                   None \<Rightarrow> Inl AttributeError
                 | Some t \<Rightarrow>
                     let decoded_str = decode t (encode t cleaned_transcript)
                     in if cleaned_transcript \<noteq> decoded_str
                        then Inr (None, bad_count + 1, [BadRoundTrip (bad_count + 1) cleaned_transcript])
                        else Inr (Some cleaned_transcript, bad_count, [])))
      else Inl NotImplementedError)"

section \<open>The file system, \<open>get_wav_from_txt\<close>, \<open>get_transcription_from_json\<close> and \<open>main\<close>\<close>

text \<open>
  A path is the list of its components. Of a transcript's path the script reads
  \<open>.parent.name\<close> and \<open>.stem\<close>, and opens the file. The file system is what the script
  observes of it: the results of \<open>rglob\<close> and \<open>glob\<close>, in scan order, and the string-valued
  JSON object in each transcript file, as the items of the dict that \<open>json.load\<close> returns.
\<close>

type_synonym path = "pystr list"

record txt_path =
  full :: path
  parent_name :: pystr
  stem :: pystr

record filesystem =
  rglob :: "path \<Rightarrow> pystr \<Rightarrow> txt_path list"
  glob :: "path \<Rightarrow> pystr \<Rightarrow> path list"
  json_load :: "txt_path \<Rightarrow> (pystr \<times> pystr) list"

text \<open>
  \<open>[wav_path] = (wav_dir / spk_name).glob(pattern)\<close>: unpacking into a one-element
  target raises ValueError unless the iterable yields exactly one item.
\<close>

definition get_wav_from_txt :: "filesystem \<Rightarrow> txt_path \<Rightarrow> path \<Rightarrow> error + path" where
  "get_wav_from_txt fs p wav_dir =
     (let f_name = stem p;
          spk_name = parent_name p;
          pattern = f_name @ ascii ''-[0-9]*.wav''
      in case glob fs (wav_dir @ [spk_name]) pattern of
           [wav_path] \<Rightarrow> Inr wav_path
         | _ \<Rightarrow> Inl ValueError)"

definition get_transcription_from_json :: "filesystem \<Rightarrow> txt_path \<Rightarrow> pystr \<Rightarrow> error + pystr" where
  "get_transcription_from_json fs json_path transcript_type =
     (case dict_get (json_load fs json_path) transcript_type of
        Inl e \<Rightarrow> Inl e
      | Inr txt \<Rightarrow> clean_text txt transcript_type)"

text \<open>
  A list comprehension or \<open>Series.map\<close> over a function that may raise: the first
  exception ends it.
\<close>

fun map_result :: "('a \<Rightarrow> error + 'b) \<Rightarrow> 'a list \<Rightarrow> error + 'b list" where
  "map_result f [] = Inr []"
| "map_result f (x # xs) =
     (case f x of
        Inl e \<Rightarrow> Inl e
      | Inr y \<Rightarrow> (case map_result f xs of Inl e \<Rightarrow> Inl e | Inr ys \<Rightarrow> Inr (y # ys)))"

text \<open>
  The loop of \<open>main\<close> over the rows (wav_path, transcription), with its state: the bad
  count, the output buffer and the lines printed so far.
\<close>

fun validate_rows ::
    "pystr \<Rightarrow> tokenizer option \<Rightarrow> (path \<times> pystr) list \<Rightarrow> int \<Rightarrow> (path \<times> pystr) list \<Rightarrow> diag list
      \<Rightarrow> error + ((path \<times> pystr) list \<times> int \<times> diag list)" where
  "validate_rows transcript_type tok [] bad_count output_buffer printed =
     Inr (output_buffer, bad_count, printed)"
| "validate_rows transcript_type tok ((wav_path, transcript) # rest) bad_count output_buffer printed =
     (case validate_transcription transcript transcript_type bad_count tok of
        Inl e \<Rightarrow> Inl e
      | Inr (result, bad_count', out) \<Rightarrow>
          validate_rows transcript_type tok rest bad_count'
            (case result of
               None \<Rightarrow> output_buffer
             | Some r \<Rightarrow> output_buffer @ [(wav_path, r)])
            (printed @ out))"

record args =
  TAT_root :: path
  output_root :: path
  transcript_type_arg :: pystr

text \<open>
  \<open>main\<close>, up to the table it hands to the CSV writer: the rows of the output buffer, with
  the final bad count and the lines printed. \<open>whisper\<close> is the tokenizer that
  \<open>WhisperTokenizer.from_pretrained\<close> loads; \<open>TAT_root\<close> is taken as already resolved.
\<close>

definition main ::
    "filesystem \<Rightarrow> tokenizer \<Rightarrow> args \<Rightarrow> error + ((path \<times> pystr) list \<times> int \<times> diag list)" where
  "main fs whisper a =
     (case (if transcript_type_arg a = ascii ''tailo'' then Inr (TAILO, None)
            else if transcript_type_arg a = ascii ''taiwen'' then Inr (TAIWEN, Some whisper)
            else if transcript_type_arg a = ascii ''tailonum'' then Inr (TAILONUM, None)
            else Inl NotImplementedError) of
        Inl e \<Rightarrow> Inl e
      | Inr (transcript_type, tok) \<Rightarrow>
          let TAT_txt_dir = TAT_root a @ [ascii ''json''];
              TAT_wav_dir = TAT_root a @ [ascii ''condenser'', ascii ''wav''];
              TAT_txt_list = rglob fs TAT_txt_dir (ascii ''*.json'')
          in (case map_result (\<lambda>p. get_wav_from_txt fs p TAT_wav_dir) TAT_txt_list of
                Inl e \<Rightarrow> Inl e
              | Inr TAT_wav_list \<Rightarrow>
                  (case map_result (\<lambda>p. get_transcription_from_json fs p transcript_type) TAT_txt_list of
                     Inl e \<Rightarrow> Inl e
                   | Inr transcription \<Rightarrow>
                       validate_rows transcript_type tok (zip TAT_wav_list transcription) 0 [] [])))"

section \<open>Reference definitions, following the specification's wording\<close>

text \<open>
  The specification describes a substitution map applied to a text: every character that is
  a key of the map is replaced by its value, all at once.
\<close>

definition spec_substitute :: "(pystr \<times> pystr) list \<Rightarrow> pystr \<Rightarrow> pystr" where
  "spec_substitute m s = concat (map (\<lambda>c. case map_of m [c] of None \<Rightarrow> [c] | Some v \<Rightarrow> v) s)"

text \<open>The substitution map a variant owns.\<close>

definition variant_map :: "pystr \<Rightarrow> (pystr \<times> pystr) list" where
  "variant_map transcript_type =
     (case dict_get CLEAN_MAPPING transcript_type of Inl e \<Rightarrow> [] | Inr m \<Rightarrow> m)"

text \<open>
  The characters the TailoNumeric normalisation turns into spaces: apostrophe, straight
  double quote, curly double quotes, colon, both parentheses.
\<close>

definition spec_quote_chars :: pystr where
  "spec_quote_chars = [0x27, 0x22, 0x201C, 0x201D, 0x3A, 0x28, 0x29]"

text \<open>Trim, replace each of these characters with one space, trim again.\<close>

definition spec_retrim :: "pystr \<Rightarrow> pystr" where
  "spec_retrim raw = strip (map (\<lambda>c. if c \<in> set spec_quote_chars then 0x20 else c) (strip raw))"

text \<open>
  The terminal punctuation rule: a trailing comma becomes the full stop; then the full stop
  is appended unless the final character is one of the terminal marks.
\<close>

definition spec_terminal :: "int \<Rightarrow> int \<Rightarrow> pystr \<Rightarrow> pystr \<Rightarrow> pystr" where
  "spec_terminal comma stop marks t =
     (let t = (if t \<noteq> [] \<and> last t = comma then butlast t @ [stop] else t)
      in if t \<noteq> [] \<and> last t \<in> set marks then t else t @ [stop])"

text \<open>
  When replacing key after key gives the same text as substituting all keys at once: every
  key is one character, and no value holds a character that is a later key.
\<close>

fun sequential_ok :: "(pystr \<times> pystr) list \<Rightarrow> bool" where
  "sequential_ok [] = True"
| "sequential_ok ((k, v) # rest) =
     (length k = 1 \<and> list_all (\<lambda>c. map_of rest [c] = None) v \<and> sequential_ok rest)"

text \<open>The cleaned string of a variant: its substitution map applied to the text.\<close>

definition spec_cleaned :: "pystr \<Rightarrow> pystr \<Rightarrow> pystr" where
  "spec_cleaned transcript_type transcript = spec_substitute (variant_map transcript_type) transcript"

section \<open>Example corpora\<close>

text \<open>
  A corpus of two transcripts of speaker \<open>spk1\<close>. Transcript \<open>a\<close> is clean in both
  variants (\<open>m7-ji5,\<close> and U+4F60 U+597D U+FF0C); transcript \<open>b\<close> holds U+2605, a
  black star, which no variant accepts. Each has one recording.
\<close>

definition example_paths :: "txt_path list" where
  "example_paths =
     [\<lparr>full = [ascii ''TAT'', ascii ''json'', ascii ''spk1'', ascii ''a.json''],
        parent_name = ascii ''spk1'', stem = ascii ''a''\<rparr>,
      \<lparr>full = [ascii ''TAT'', ascii ''json'', ascii ''spk1'', ascii ''b.json''],
        parent_name = ascii ''spk1'', stem = ascii ''b''\<rparr>]"

definition example_fs :: filesystem where
  "example_fs =
     \<lparr>rglob = (\<lambda>d pattern. example_paths),
      glob = (\<lambda>d pattern.
         if pattern = ascii ''a-[0-9]*.wav'' then [d @ [ascii ''a-01.wav'']]
         else if pattern = ascii ''b-[0-9]*.wav'' then [d @ [ascii ''b-02.wav'']]
         else []),
      json_load = (\<lambda>p.
         if stem p = ascii ''a''
         then [(TAILONUM, ascii ''m7-ji5,''), (TAIWEN, [0x4F60, 0x597D, 0xFF0C])]
         else [(TAILONUM, ascii ''caf'' @ [0xE9, 0x2605]), (TAIWEN, [0x2605, 0x3002])])\<rparr>"

text \<open>The same corpus with a second recording that matches transcript \<open>b\<close>.\<close>

definition duplicate_fs :: filesystem where
  "duplicate_fs =
     example_fs\<lparr>glob := (\<lambda>d pattern.
         if pattern = ascii ''a-[0-9]*.wav'' then [d @ [ascii ''a-01.wav'']]
         else if pattern = ascii ''b-[0-9]*.wav'' then [d @ [ascii ''b-02.wav''], d @ [ascii ''b-03.wav'']]
         else [])\<rparr>"

text \<open>The same corpus with transcripts that are blank (TAILONUM) and empty (TAIWEN).\<close>

definition blank_fs :: filesystem where
  "blank_fs = example_fs\<lparr>json_load := (\<lambda>p. [(TAILONUM, ascii ''  ''), (TAIWEN, [])])\<rparr>"

text \<open>A tokenizer that cannot represent the black star: decoding drops it.\<close>

definition example_tok :: tokenizer where
  "example_tok = \<lparr>encode = (\<lambda>s. s), decode = filter (\<lambda>c. c \<noteq> 0x2605)\<rparr>"

definition example_args :: "pystr \<Rightarrow> args" where
  "example_args t = \<lparr>TAT_root = [ascii ''TAT''], output_root = [ascii ''TAT-data''], transcript_type_arg = t\<rparr>"

section \<open>String methods\<close>

lemma replace_single:
  "replace s [k] new = concat (map (\<lambda>c. if c = k then new else [c]) s)"
  by (induction s) simp_all

lemma replace_single_char:
  "replace s [k] [b] = map (\<lambda>c. if c = k then b else c) s"
  by (induction s) simp_all

lemma endswith_single: "endswith s [c] = (s \<noteq> [] \<and> last s = c)"
  by (cases s rule: rev_cases) (auto simp: endswith_def)

lemma rstrip_prefix: "s = rstrip s @ rev (takeWhile isspace (rev s))"
proof -
  have "rev (rstrip s @ rev (takeWhile isspace (rev s))) = rev s"
    by (simp add: rstrip_def)
  then show ?thesis by (simp only: rev_is_rev_conv)
qed

lemma rstrip_last: "rstrip s \<noteq> [] \<Longrightarrow> \<not> isspace (last (rstrip s))"
  using hd_dropWhile [of isspace "rev s"] by (simp add: rstrip_def last_rev)

lemma rstrip_hd: "rstrip s \<noteq> [] \<Longrightarrow> hd (rstrip s) = hd s"
  using rstrip_prefix [of s] by (metis hd_append2)

lemma strip_last: "strip s \<noteq> [] \<Longrightarrow> \<not> isspace (last (strip s))"
  unfolding strip_def by (rule rstrip_last)

lemma strip_hd: "strip s \<noteq> [] \<Longrightarrow> \<not> isspace (hd (strip s))"
proof -
  assume ne: "strip s \<noteq> []"
  then have "hd (strip s) = hd (lstrip s)" unfolding strip_def by (rule rstrip_hd)
  moreover have "lstrip s \<noteq> []" using ne by (auto simp: strip_def rstrip_def)
  then have "\<not> isspace (hd (lstrip s))" unfolding lstrip_def by (rule hd_dropWhile)
  ultimately show ?thesis by simp
qed

lemma strip_id: "s \<noteq> [] \<Longrightarrow> \<not> isspace (hd s) \<Longrightarrow> \<not> isspace (last s) \<Longrightarrow> strip s = s"
proof -
  assume ne: "s \<noteq> []" and h: "\<not> isspace (hd s)" and l: "\<not> isspace (last s)"
  from ne h have "lstrip s = s" by (cases s) (simp_all add: lstrip_def)
  moreover from ne l have "dropWhile isspace (rev s) = rev s"
    by (cases s rule: rev_cases) simp_all
  then have "rstrip s = s" by (simp add: rstrip_def)
  ultimately show ?thesis by (simp add: strip_def)
qed

lemma set_strip: "set (strip s) \<subseteq> set s"
proof -
  have "set (rstrip t) \<subseteq> set t" for t
    using set_dropWhileD [of _ isspace "rev t"] by (auto simp: rstrip_def)
  moreover have "set (lstrip s) \<subseteq> set s"
    using set_dropWhileD [of _ isspace s] by (auto simp: lstrip_def)
  ultimately show ?thesis unfolding strip_def by blast
qed

lemma ascii_literals:
  "ascii '' '' = [0x20]" "ascii '':'' = [0x3A]" "ascii '')'' = [0x29]" "ascii ''('' = [0x28]"
  "ascii '','' = [0x2C]" "ascii ''.'' = [0x2E]" "ascii ''?!.'' = [0x3F, 0x21, 0x2E]"
  by (simp_all add: ascii_def)

section \<open>\<open>clean_text\<close> computes the normalisation the specification describes\<close>

lemma quote_replaces:
  "replace (replace (replace (replace (replace (replace (replace s [0x27] [0x20]) [0x22] [0x20])
       [0x201C] [0x20]) [0x201D] [0x20]) [0x3A] [0x20]) [0x29] [0x20]) [0x28] [0x20]
   = map (\<lambda>c. if c \<in> set spec_quote_chars then 0x20 else c) s"
  by (simp add: replace_single_char spec_quote_chars_def)

lemma append_terminal_eq:
  "append_terminal t marks stop =
     (if t = [] then Inl IndexError else Inr (if last t \<in> set marks then t else t @ stop))"
  by (simp add: append_terminal_def last_char_def)

lemma clean_text_TAILONUM:
  "clean_text raw TAILONUM =
     (if spec_retrim raw = [] then Inl IndexError
      else Inr (spec_terminal 0x2C 0x2E [0x3F, 0x21, 0x2E] (spec_retrim raw)))"
  by (simp add: clean_text_def ascii_literals quote_replaces endswith_single append_terminal_eq
      spec_retrim_def spec_terminal_def Let_def)

lemma TAIWEN_neq: "TAIWEN \<noteq> TAILONUM" "TAILO \<noteq> TAILONUM" "TAILO \<noteq> TAIWEN"
  by (simp_all add: TAIWEN_def TAILONUM_def TAILO_def)

lemma clean_text_TAIWEN:
  "clean_text raw TAIWEN =
     (if raw = [] then Inl IndexError
      else Inr (spec_terminal 0xFF0C 0x3002 [0xFF1F, 0x3002, 0xFF01] raw))"
  by (simp add: clean_text_def TAIWEN_neq endswith_single append_terminal_eq spec_terminal_def Let_def)

lemma clean_text_other:
  "ty \<noteq> TAILONUM \<Longrightarrow> ty \<noteq> TAIWEN \<Longrightarrow> clean_text raw ty = Inl NotImplementedError"
  by (simp add: clean_text_def)

lemma spec_terminal_nonempty: "spec_terminal comma stop marks t \<noteq> []"
  by (simp add: spec_terminal_def Let_def)

lemma spec_terminal_last:
  "stop \<in> set marks \<Longrightarrow> last (spec_terminal comma stop marks t) \<in> set marks"
  by (simp add: spec_terminal_def Let_def)

lemma spec_terminal_fixed:
  "t \<noteq> [] \<Longrightarrow> last t \<in> set marks \<Longrightarrow> comma \<notin> set marks \<Longrightarrow> spec_terminal comma stop marks t = t"
  by (auto simp: spec_terminal_def Let_def)

lemma set_spec_terminal: "set (spec_terminal comma stop marks t) \<subseteq> insert stop (set t)"
  by (auto simp: spec_terminal_def Let_def dest: in_set_butlastD)

lemma hd_spec_terminal:
  assumes "t \<noteq> []" "\<not> isspace (hd t)" "\<not> isspace stop"
  shows "\<not> isspace (hd (spec_terminal comma stop marks t))"
proof (cases "butlast t = []")
  case True
  with assms show ?thesis
    by (auto simp: spec_terminal_def Let_def)
next
  case False
  then have "hd (butlast t @ [stop]) = hd t"
    by (cases t) (simp_all split: if_splits)
  with assms show ?thesis
    by (auto simp: spec_terminal_def Let_def)
qed

lemma isspace_marks: "\<not> isspace 0x3F" "\<not> isspace 0x21" "\<not> isspace 0x2E"
  by (simp_all add: isspace_def)

lemma quote_free_map:
  "list_all (\<lambda>c. c \<notin> set spec_quote_chars) s
    \<Longrightarrow> map (\<lambda>c. if c \<in> set spec_quote_chars then 0x20 else c) s = s"
  by (induction s) simp_all

lemma spec_retrim_quote_free: "list_all (\<lambda>c. c \<notin> set spec_quote_chars) (spec_retrim raw)"
proof -
  have "list_all (\<lambda>c. c \<notin> set spec_quote_chars)
          (map (\<lambda>c. if c \<in> set spec_quote_chars then 0x20 else c) s)" for s
    by (induction s) (simp_all add: spec_quote_chars_def)
  then show ?thesis
    unfolding spec_retrim_def list_all_iff using set_strip by blast
qed

lemma spec_retrim_id:
  "strip x = x \<Longrightarrow> map (\<lambda>c. if c \<in> set spec_quote_chars then 0x20 else c) x = x
    \<Longrightarrow> spec_retrim x = x"
  by (simp add: spec_retrim_def)

lemma spec_retrim_fixed:
  assumes t: "spec_retrim raw \<noteq> []"
  shows "spec_retrim (spec_terminal 0x2C 0x2E [0x3F, 0x21, 0x2E] (spec_retrim raw))
           = spec_terminal 0x2C 0x2E [0x3F, 0x21, 0x2E] (spec_retrim raw)"
    (is "spec_retrim ?out = ?out")
proof -
  have hd_t: "\<not> isspace (hd (spec_retrim raw))"
    using t unfolding spec_retrim_def by (rule strip_hd)
  have ne: "?out \<noteq> []" by (rule spec_terminal_nonempty)
  have "last ?out \<in> set [0x3F, 0x21, 0x2E]" by (rule spec_terminal_last) simp
  then have l: "\<not> isspace (last ?out)" using isspace_marks by auto
  have h: "\<not> isspace (hd ?out)" using t hd_t isspace_marks(3) by (rule hd_spec_terminal)
  have s: "strip ?out = ?out" using ne h l by (rule strip_id)
  have stop: "0x2E \<notin> set spec_quote_chars" by (simp add: spec_quote_chars_def)
  have "\<forall>c\<in>set (spec_retrim raw). c \<notin> set spec_quote_chars"
    using spec_retrim_quote_free [of raw] by (simp only: list_all_iff)
  with stop have "\<forall>c\<in>set ?out. c \<notin> set spec_quote_chars"
    using set_spec_terminal [of "0x2C" "0x2E" "[0x3F, 0x21, 0x2E]" "spec_retrim raw"] by blast
  then have "list_all (\<lambda>c. c \<notin> set spec_quote_chars) ?out"
    by (simp only: list_all_iff)
  then have "map (\<lambda>c. if c \<in> set spec_quote_chars then 0x20 else c) ?out = ?out"
    by (rule quote_free_map)
  with s show ?thesis by (rule spec_retrim_id)
qed

section \<open>Claims about \<open>clean_text\<close>\<close>

text \<open>
  C3. For the TailoNumeric variant \<open>clean_text\<close> performs the steps of the specification in
  order: trim; replace apostrophe, straight and curly double quotes, colon and both
  parentheses by one space each; trim again; turn a trailing comma into a full stop;
  append a full stop unless the final character is one of \<open>? ! .\<close>. The seven successive
  \<open>replace\<close> calls of the code are the one character-wise replacement of \<open>spec_retrim\<close>.
  Where the re-trimmed text is empty there is no final character, and the code raises
  IndexError. The input \<open>m7-ji5,\<close> is normalised to \<open>m7-ji5.\<close>, which the charset
  validator accepts.
\<close>

theorem clean_text_tailonum_steps:
  "clean_text raw TAILONUM =
     (if spec_retrim raw = [] then Inl IndexError
      else Inr (spec_terminal 0x2C 0x2E [0x3F, 0x21, 0x2E] (spec_retrim raw)))
   \<and> clean_text (ascii ''m7-ji5,'') TAILONUM = Inr (ascii ''m7-ji5.'')
   \<and> validate_transcription (ascii ''m7-ji5.'') TAILONUM bad_count tok
        = Inr (Some (ascii ''m7-ji5.''), bad_count, [])"
proof (intro conjI)
  show "clean_text raw TAILONUM =
     (if spec_retrim raw = [] then Inl IndexError
      else Inr (spec_terminal 0x2C 0x2E [0x3F, 0x21, 0x2E] (spec_retrim raw)))"
    by (rule clean_text_TAILONUM)
  show "clean_text (ascii ''m7-ji5,'') TAILONUM = Inr (ascii ''m7-ji5.'')"
    by code_simp
  show "validate_transcription (ascii ''m7-ji5.'') TAILONUM bad_count tok
        = Inr (Some (ascii ''m7-ji5.''), bad_count, [])"
    by code_simp
qed

text \<open>
  C4. For the SinicizedTaiwanese variant \<open>clean_text\<close> turns a trailing full-width comma
  (U+FF0C) into the full-width full stop (U+3002), and appends the full-width full stop
  unless the final character is one of U+FF1F, U+3002, U+FF01. On the empty string there
  is no final character, and the code raises IndexError. The input U+4F60 U+597D U+FF0C
  is normalised to U+4F60 U+597D U+3002.
\<close>

theorem clean_text_taiwen_terminal:
  "clean_text raw TAIWEN =
     (if raw = [] then Inl IndexError
      else Inr (spec_terminal 0xFF0C 0x3002 [0xFF1F, 0x3002, 0xFF01] raw))
   \<and> clean_text [0x4F60, 0x597D, 0xFF0C] TAIWEN = Inr [0x4F60, 0x597D, 0x3002]"
proof (intro conjI)
  show "clean_text raw TAIWEN =
     (if raw = [] then Inl IndexError
      else Inr (spec_terminal 0xFF0C 0x3002 [0xFF1F, 0x3002, 0xFF01] raw))"
    by (rule clean_text_TAIWEN)
  show "clean_text [0x4F60, 0x597D, 0xFF0C] TAIWEN = Inr [0x4F60, 0x597D, 0x3002]"
    by code_simp
qed

text \<open>
  C7, as stated: for the Tailo variant \<open>clean_text\<close> returns its input unchanged. It does
  not: on \<open>abc\<close> it returns no text.
\<close>

theorem clean_text_tailo_not_passthrough:
  "clean_text (ascii ''abc'') TAILO \<noteq> Inr (ascii ''abc'')"
  by code_simp

text \<open>
  C7, amended: for the Tailo variant \<open>clean_text\<close> raises NotImplementedError on every
  input; the branch for this variant is the final \<open>else\<close> of the function.
\<close>

theorem clean_text_tailo_not_implemented:
  "clean_text raw TAILO = Inl NotImplementedError"
  by (simp add: clean_text_other TAIWEN_neq)

text \<open>
  C8. The specification asks that a text which is empty after trimming (TailoNumeric) or
  empty (SinicizedTaiwanese) be rejected through the rejection path, not fail on indexing
  the last character. The code does index the last character: on the blank text (two
  spaces) for TailoNumeric and on the empty text for SinicizedTaiwanese \<open>clean_text\<close>
  raises IndexError, and \<open>main\<close> on a corpus with these transcripts ends in IndexError,
  with no row and no bad count.
\<close>

theorem clean_text_empty_raises_IndexError:
  "clean_text (ascii ''  '') TAILONUM = Inl IndexError
   \<and> clean_text [] TAIWEN = Inl IndexError
   \<and> main blank_fs example_tok (example_args (ascii ''tailonum'')) = Inl IndexError
   \<and> main blank_fs example_tok (example_args (ascii ''taiwen'')) = Inl IndexError"
  by code_simp

text \<open>
  C9. Normalisation is idempotent for every variant: where \<open>clean_text\<close> returns a text,
  \<open>clean_text\<close> of that text returns it again; no second full stop is appended.
\<close>

theorem clean_text_idempotent:
  "clean_text raw transcript_type = Inr out \<Longrightarrow> clean_text out transcript_type = Inr out"
proof -
  assume a: "clean_text raw transcript_type = Inr out"
  consider (num) "transcript_type = TAILONUM" | (wen) "transcript_type = TAIWEN"
    | (other) "transcript_type \<noteq> TAILONUM" "transcript_type \<noteq> TAIWEN" by blast
  then show ?thesis
  proof cases
    case num
    from a have t: "spec_retrim raw \<noteq> []"
      and out: "out = spec_terminal 0x2C 0x2E [0x3F, 0x21, 0x2E] (spec_retrim raw)"
      by (auto simp: num clean_text_TAILONUM split: if_splits)
    have r: "spec_retrim out = out" unfolding out using t by (rule spec_retrim_fixed)
    have ne: "out \<noteq> []" unfolding out by (rule spec_terminal_nonempty)
    have "last out \<in> set [0x3F, 0x21, 0x2E]" unfolding out by (rule spec_terminal_last) simp
    then have "spec_terminal 0x2C 0x2E [0x3F, 0x21, 0x2E] out = out"
      using ne by (intro spec_terminal_fixed) simp_all
    then show ?thesis using ne by (simp add: num clean_text_TAILONUM r)
  next
    case wen
    from a have out: "out = spec_terminal 0xFF0C 0x3002 [0xFF1F, 0x3002, 0xFF01] raw"
      by (auto simp: wen clean_text_TAIWEN split: if_splits)
    have ne: "out \<noteq> []" unfolding out by (rule spec_terminal_nonempty)
    have "last out \<in> set [0xFF1F, 0x3002, 0xFF01]" unfolding out by (rule spec_terminal_last) simp
    then have "spec_terminal 0xFF0C 0x3002 [0xFF1F, 0x3002, 0xFF01] out = out"
      using ne by (intro spec_terminal_fixed) simp_all
    then show ?thesis using ne by (simp add: wen clean_text_TAIWEN)
  next
    case other
    with a show ?thesis by (simp add: clean_text_other)
  qed
qed

theorem clean_text_idempotent_witness:
  "clean_text (ascii ''  tsit8 (nng7),'') TAILONUM = Inr (ascii ''tsit8  nng7 .'')
   \<and> clean_text (ascii ''tsit8  nng7 .'') TAILONUM = Inr (ascii ''tsit8  nng7 .'')"
proof -
  have h: "clean_text (ascii ''  tsit8 (nng7),'') TAILONUM = Inr (ascii ''tsit8  nng7 .'')"
    by code_simp
  from h clean_text_idempotent [OF h] show ?thesis by (rule conjI)
qed

section \<open>Replacing key after key is one substitution\<close>

lemma spec_substitute_append:
  "spec_substitute m (a @ b) = spec_substitute m a @ spec_substitute m b"
  by (simp add: spec_substitute_def)

lemma spec_substitute_unmapped:
  "list_all (\<lambda>c. map_of m [c] = None) v \<Longrightarrow> spec_substitute m v = v"
  by (induction v) (simp_all add: spec_substitute_def)

lemma spec_substitute_replace:
  assumes "list_all (\<lambda>c. map_of rest [c] = None) v"
  shows "spec_substitute rest (replace s [k] v) = spec_substitute (([k], v) # rest) s"
proof (induction s)
  case Nil
  show ?case by (simp add: spec_substitute_def)
next
  case (Cons x xs)
  have tl_eq: "spec_substitute (([k], v) # rest) (x # xs)
      = (if x = k then v else spec_substitute rest [x]) @ spec_substitute (([k], v) # rest) xs"
    by (simp add: spec_substitute_def)
  show ?case
  proof (cases "x = k")
    case True
    then have "replace (x # xs) [k] v = v @ replace xs [k] v" by simp
    then show ?thesis
      unfolding tl_eq using True Cons.IH assms
      by (simp add: spec_substitute_append spec_substitute_unmapped)
  next
    case False
    then have "replace (x # xs) [k] v = [x] @ replace xs [k] v" by simp
    then show ?thesis
      using Cons.IH False by (simp only: tl_eq spec_substitute_append if_False)
  qed
qed

lemma apply_mapping_spec_substitute:
  "sequential_ok m \<Longrightarrow> apply_mapping m s = spec_substitute m s"
proof (induction m arbitrary: s)
  case Nil
  show ?case by (simp add: spec_substitute_def)
next
  case (Cons kv rest)
  obtain k v where kv: "kv = (k, v)" by (cases kv)
  from Cons.prems kv obtain k0 where k: "k = [k0]"
    by (cases k) auto
  from Cons.prems kv have un: "list_all (\<lambda>c. map_of rest [c] = None) v" and ok: "sequential_ok rest"
    by simp_all
  show ?case
    using Cons.IH [OF ok] spec_substitute_replace [OF un] by (simp add: kv k)
qed

lemma dict_get_TAILONUM: "dict_get CLEAN_MAPPING TAILONUM = Inr [([0xFE56], [0x3F]),
         ([0xFF01], [0x21]),
         ([0xFF05], [0x25]),
         ([0xFF08], [0x28]),
         ([0xFF09], [0x29]),
         ([0xFF0C], [0x2C]),
         ([0xFF1A], [0x3A]),
         ([0xFF1B], [0x3B]),
         ([0xFF1F], [0x3F]),
         ([0x2014], [0x2D, 0x2D]),
         ([0x2500], [0x2D])]"
  by code_simp

lemma dict_get_TAIWEN: "dict_get CLEAN_MAPPING TAIWEN = Inr [([0xFE56], [0xFF1F]),
         ([0x3F], [0xFF1F]),
         ([0x21], [0xFF01]),
         ([0x28], [0xFF08]),
         ([0x29], [0xFF09]),
         ([0x2C], [0xFF0C]),
         ([0x3A], [0xFF1A]),
         ([0x3B], [0xFF1B])]"
  by code_simp

lemma variant_map_TAILONUM:
  "variant_map TAILONUM =
     [([0xFE56], [0x3F]), ([0xFF01], [0x21]), ([0xFF05], [0x25]), ([0xFF08], [0x28]),
      ([0xFF09], [0x29]), ([0xFF0C], [0x2C]), ([0xFF1A], [0x3A]), ([0xFF1B], [0x3B]),
      ([0xFF1F], [0x3F]), ([0x2014], [0x2D, 0x2D]), ([0x2500], [0x2D])]"
  by (simp add: variant_map_def dict_get_TAILONUM)

lemma variant_map_TAIWEN:
  "variant_map TAIWEN =
     [([0xFE56], [0xFF1F]), ([0x3F], [0xFF1F]), ([0x21], [0xFF01]), ([0x28], [0xFF08]),
      ([0x29], [0xFF09]), ([0x2C], [0xFF0C]), ([0x3A], [0xFF1A]), ([0x3B], [0xFF1B])]"
  by (simp add: variant_map_def dict_get_TAIWEN)

lemma sequential_ok_TAILONUM: "sequential_ok (variant_map TAILONUM)"
  by (simp add: variant_map_TAILONUM)

lemma sequential_ok_TAIWEN: "sequential_ok (variant_map TAIWEN)"
  by (simp add: variant_map_TAIWEN)

lemma dict_get_variant_map:
  "dict_get CLEAN_MAPPING TAILONUM = Inr (variant_map TAILONUM)"
  "dict_get CLEAN_MAPPING TAIWEN = Inr (variant_map TAIWEN)"
  by (simp_all add: variant_map_def dict_get_TAILONUM dict_get_TAIWEN)

lemma cleaned_TAILONUM: "apply_mapping (variant_map TAILONUM) s = spec_cleaned TAILONUM s"
  unfolding spec_cleaned_def using sequential_ok_TAILONUM by (rule apply_mapping_spec_substitute)

lemma cleaned_TAIWEN: "apply_mapping (variant_map TAIWEN) s = spec_cleaned TAIWEN s"
  unfolding spec_cleaned_def using sequential_ok_TAIWEN by (rule apply_mapping_spec_substitute)

lemma check_chars_accept:
  "list_all (\<lambda>c. c \<in> set ACCEPTABLE_CHARS) cs \<Longrightarrow> check_chars cs cleaned bad_count = (Some cleaned, bad_count, [])"
  by (induction cs) simp_all

lemma check_chars_reject:
  "list_all (\<lambda>c. c \<in> set ACCEPTABLE_CHARS) pre \<Longrightarrow> c \<notin> set ACCEPTABLE_CHARS
    \<Longrightarrow> check_chars (pre @ c # rest) cleaned bad_count
          = (None, bad_count + 1, [BadChar (bad_count + 1) c cleaned])"
  by (induction pre) simp_all

lemma first_bad_char:
  "\<not> list_all P cs \<Longrightarrow> \<exists>pre c rest. cs = pre @ c # rest \<and> list_all P pre \<and> \<not> P c"
proof (induction cs)
  case Nil
  then show ?case by simp
next
  case (Cons x xs)
  show ?case
  proof (cases "P x")
    case True
    with Cons obtain pre c rest where "xs = pre @ c # rest" "list_all P pre" "\<not> P c"
      by auto
    with True have "x # xs = (x # pre) @ c # rest \<and> list_all P (x # pre) \<and> \<not> P c"
      by simp
    then show ?thesis by blast
  next
    case False
    then have "x # xs = [] @ x # xs \<and> list_all P [] \<and> \<not> P x" by simp
    then show ?thesis by blast
  qed
qed

lemma validate_TAILONUM:
  "validate_transcription transcript TAILONUM bad_count tok
     = Inr (check_chars (spec_cleaned TAILONUM transcript) (spec_cleaned TAILONUM transcript) bad_count)"
  by (simp add: validate_transcription_def dict_get_variant_map cleaned_TAILONUM Let_def)

lemma validate_TAIWEN:
  "validate_transcription transcript TAIWEN bad_count (Some t)
     = (if decode t (encode t (spec_cleaned TAIWEN transcript)) = spec_cleaned TAIWEN transcript
        then Inr (Some (spec_cleaned TAIWEN transcript), bad_count, [])
        else Inr (None, bad_count + 1, [BadRoundTrip (bad_count + 1) (spec_cleaned TAIWEN transcript)]))"
  by (auto simp: validate_transcription_def TAIWEN_neq dict_get_variant_map cleaned_TAIWEN Let_def)

section \<open>Claims about \<open>validate_transcription\<close>\<close>

text \<open>
  C1. For the TailoNumeric variant the validator works on the cleaned string, the
  substitution map applied to the text. It accepts, returning the cleaned string with the
  bad count unchanged and nothing printed, exactly when every character of the cleaned
  string is in \<open>ACCEPTABLE_CHARS\<close>. Otherwise it rejects at the first character that is
  not: whatever follows that character, it returns no text, the bad count plus one, and one
  diagnostic line naming that character and the cleaned string.
\<close>

theorem validate_tailonum_charset_scan:
  "(validate_transcription transcript TAILONUM bad_count tok
       = Inr (Some (spec_cleaned TAILONUM transcript), bad_count, []))
     = list_all (\<lambda>c. c \<in> set ACCEPTABLE_CHARS) (spec_cleaned TAILONUM transcript)
   \<and> (\<forall>pre c rest.
         spec_cleaned TAILONUM transcript = pre @ c # rest
         \<and> list_all (\<lambda>c. c \<in> set ACCEPTABLE_CHARS) pre \<and> c \<notin> set ACCEPTABLE_CHARS
         \<longrightarrow> validate_transcription transcript TAILONUM bad_count tok
               = Inr (None, bad_count + 1, [BadChar (bad_count + 1) c (spec_cleaned TAILONUM transcript)]))"
proof (intro conjI allI impI)
  fix pre c rest
  assume "spec_cleaned TAILONUM transcript = pre @ c # rest
         \<and> list_all (\<lambda>c. c \<in> set ACCEPTABLE_CHARS) pre \<and> c \<notin> set ACCEPTABLE_CHARS"
  then show "validate_transcription transcript TAILONUM bad_count tok
               = Inr (None, bad_count + 1, [BadChar (bad_count + 1) c (spec_cleaned TAILONUM transcript)])"
    using check_chars_reject [of pre c rest "spec_cleaned TAILONUM transcript" bad_count]
    by (simp add: validate_TAILONUM)
next
  show "(validate_transcription transcript TAILONUM bad_count tok
       = Inr (Some (spec_cleaned TAILONUM transcript), bad_count, []))
     = list_all (\<lambda>c. c \<in> set ACCEPTABLE_CHARS) (spec_cleaned TAILONUM transcript)"
  proof (cases "list_all (\<lambda>c. c \<in> set ACCEPTABLE_CHARS) (spec_cleaned TAILONUM transcript)")
    case True
    then show ?thesis by (simp add: validate_TAILONUM check_chars_accept)
  next
    case False
    then obtain pre c rest where "spec_cleaned TAILONUM transcript = pre @ c # rest"
      "list_all (\<lambda>c. c \<in> set ACCEPTABLE_CHARS) pre" "c \<notin> set ACCEPTABLE_CHARS"
      using first_bad_char [of "\<lambda>c. c \<in> set ACCEPTABLE_CHARS"] by blast
    then have "check_chars (spec_cleaned TAILONUM transcript) (spec_cleaned TAILONUM transcript) bad_count
        = (None, bad_count + 1, [BadChar (bad_count + 1) c (spec_cleaned TAILONUM transcript)])"
      using check_chars_reject [of pre c rest "spec_cleaned TAILONUM transcript" bad_count] by simp
    with False show ?thesis by (simp add: validate_TAILONUM)
  qed
qed

theorem validate_tailonum_charset_scan_witness:
  "validate_transcription (ascii ''caf'' @ [0xE9, 0x2605, 0x2014, 0x263A]) TAILONUM 0 None
     = Inr (None, 1, [BadChar 1 0x2605 (ascii ''caf'' @ [0xE9, 0x2605] @ ascii ''--'' @ [0x263A])])"
proof -
  have "spec_cleaned TAILONUM (ascii ''caf'' @ [0xE9, 0x2605, 0x2014, 0x263A])
          = (ascii ''caf'' @ [0xE9]) @ 0x2605 # (ascii ''--'' @ [0x263A])
        \<and> list_all (\<lambda>c. c \<in> set ACCEPTABLE_CHARS) (ascii ''caf'' @ [0xE9])
        \<and> 0x2605 \<notin> set ACCEPTABLE_CHARS"
    by code_simp
  moreover have "spec_cleaned TAILONUM (ascii ''caf'' @ [0xE9, 0x2605, 0x2014, 0x263A])
     = ascii ''caf'' @ [0xE9, 0x2605] @ ascii ''--'' @ [0x263A]"
    by code_simp
  ultimately show ?thesis
    using validate_tailonum_charset_scan
      [of "ascii ''caf'' @ [0xE9, 0x2605, 0x2014, 0x263A]" 0 None]
    by (metis add.left_neutral)
qed

text \<open>
  C2. For the SinicizedTaiwanese variant the validator works on the cleaned string, the
  variant's substitution map applied to the text, and on what the tokenizer decodes from
  the encoding of the cleaned string. It accepts the cleaned string if the decoded string
  equals it; otherwise it rejects, with the bad count plus one and one diagnostic line.
\<close>

theorem validate_taiwen_round_trip:
  "validate_transcription transcript TAIWEN bad_count (Some t)
     = (if decode t (encode t (spec_cleaned TAIWEN transcript)) = spec_cleaned TAIWEN transcript
        then Inr (Some (spec_cleaned TAIWEN transcript), bad_count, [])
        else Inr (None, bad_count + 1, [BadRoundTrip (bad_count + 1) (spec_cleaned TAIWEN transcript)]))"
  by (rule validate_TAIWEN)

lemma values_acceptable_TAILONUM:
  "list_all (\<lambda>(k, v). list_all (\<lambda>c. c \<in> set ACCEPTABLE_CHARS) v) (variant_map TAILONUM)"
  by code_simp

lemma map_of_value_acceptable:
  "list_all (\<lambda>(k, v). list_all P v) m \<Longrightarrow> map_of m k = Some v \<Longrightarrow> list_all P v"
  by (induction m) (auto split: if_splits)

lemma spec_substitute_acceptable:
  assumes vals: "list_all (\<lambda>(k, v). list_all P v) m"
    and chars: "list_all (\<lambda>c. P c \<or> map_of m [c] \<noteq> None) s"
  shows "list_all P (spec_substitute m s)"
  using chars
proof (induction s)
  case Nil
  show ?case by (simp add: spec_substitute_def)
next
  case (Cons x xs)
  then have rest: "list_all P (spec_substitute m xs)" by simp
  have first: "list_all P (case map_of m [x] of None \<Rightarrow> [x] | Some v \<Rightarrow> v)"
  proof (cases "map_of m [x]")
    case None
    with Cons.prems show ?thesis by simp
  next
    case (Some v)
    with vals have "list_all P v" by (rule map_of_value_acceptable)
    with Some show ?thesis by simp
  qed
  have "spec_substitute m (x # xs)
      = (case map_of m [x] of None \<Rightarrow> [x] | Some v \<Rightarrow> v) @ spec_substitute m xs"
    by (simp add: spec_substitute_def)
  with first rest show ?case by simp
qed

text \<open>
  C10. Every value of the TailoNumeric substitution map, the two-character \<open>--\<close>
  included, consists of characters of \<open>ACCEPTABLE_CHARS\<close>. So a text whose every
  character is acceptable or a key of the map is accepted by the charset validator, as the
  substituted string.
\<close>

theorem tailonum_mapping_values_acceptable:
  "list_all (\<lambda>(k, v). list_all (\<lambda>c. c \<in> set ACCEPTABLE_CHARS) v) (variant_map TAILONUM)
   \<and> (list_all (\<lambda>c. c \<in> set ACCEPTABLE_CHARS \<or> map_of (variant_map TAILONUM) [c] \<noteq> None) transcript
        \<longrightarrow> validate_transcription transcript TAILONUM bad_count tok
              = Inr (Some (spec_cleaned TAILONUM transcript), bad_count, []))"
proof (intro conjI impI)
  show "list_all (\<lambda>(k, v). list_all (\<lambda>c. c \<in> set ACCEPTABLE_CHARS) v) (variant_map TAILONUM)"
    by (rule values_acceptable_TAILONUM)
next
  assume "list_all (\<lambda>c. c \<in> set ACCEPTABLE_CHARS \<or> map_of (variant_map TAILONUM) [c] \<noteq> None) transcript"
  with values_acceptable_TAILONUM
  have "list_all (\<lambda>c. c \<in> set ACCEPTABLE_CHARS) (spec_cleaned TAILONUM transcript)"
    unfolding spec_cleaned_def by (rule spec_substitute_acceptable)
  then show "validate_transcription transcript TAILONUM bad_count tok
              = Inr (Some (spec_cleaned TAILONUM transcript), bad_count, [])"
    by (simp add: validate_TAILONUM check_chars_accept)
qed

theorem tailonum_mapping_values_acceptable_witness:
  "validate_transcription ([0x2014, 0xFF08] @ ascii ''tsit8'' @ [0xFF09, 0xFF1F]) TAILONUM 0 None
     = Inr (Some (ascii ''--(tsit8)?''), 0, [])"
proof -
  have h: "list_all (\<lambda>c. c \<in> set ACCEPTABLE_CHARS \<or> map_of (variant_map TAILONUM) [c] \<noteq> None)
             ([0x2014, 0xFF08] @ ascii ''tsit8'' @ [0xFF09, 0xFF1F])"
    by code_simp
  have c: "spec_cleaned TAILONUM ([0x2014, 0xFF08] @ ascii ''tsit8'' @ [0xFF09, 0xFF1F]) = ascii ''--(tsit8)?''"
    by code_simp
  from h tailonum_mapping_values_acceptable
    [of "[0x2014, 0xFF08] @ ascii ''tsit8'' @ [0xFF09, 0xFF1F]" 0 None]
  show ?thesis by (simp only: c)
qed

section \<open>The audio path resolver and the run\<close>

lemma map_result_abort:
  "x \<in> set xs \<Longrightarrow> f x = Inl e \<Longrightarrow> (\<And>y e'. f y = Inl e' \<Longrightarrow> e' = e) \<Longrightarrow> map_result f xs = Inl e"
proof (induction xs)
  case Nil
  from Nil(1) show ?case by simp
next
  case (Cons a xs)
  show ?case
  proof (cases "f a")
    case (Inl e')
    then have "e' = e" by (rule Cons.prems(3))
    with Inl show ?thesis by simp
  next
    case (Inr y)
    with Cons.prems(1,2) have "x \<in> set xs" by auto
    then have "map_result f xs = Inl e" using Cons.prems(2,3) by (rule Cons.IH)
    with Inr show ?thesis by simp
  qed
qed

lemma map_result_length: "map_result f xs = Inr ys \<Longrightarrow> length ys = length xs"
  by (induction xs arbitrary: ys) (auto split: sum.splits)

lemma get_wav_from_txt_cases:
  "get_wav_from_txt fs p wav_dir =
     (case glob fs (wav_dir @ [parent_name p]) (stem p @ ascii ''-[0-9]*.wav'') of
        [] \<Rightarrow> Inl ValueError
      | [w] \<Rightarrow> Inr w
      | w # w' # ws \<Rightarrow> Inl ValueError)"
  by (simp add: get_wav_from_txt_def Let_def split: list.splits)

lemma get_wav_from_txt_error: "get_wav_from_txt fs p wav_dir = Inl e \<Longrightarrow> e = ValueError"
  by (auto simp: get_wav_from_txt_cases split: list.splits)

text \<open>
  C5. \<open>get_wav_from_txt\<close> returns a path exactly when the glob of the pattern in the
  speaker's directory yields that one path. When the glob yields no path or more than one,
  it raises ValueError; and \<open>main\<close>, for each of the three transcript types, then ends in
  ValueError for a transcript in the scanned list: the run is aborted, the record is not
  dropped and no match is picked.
\<close>

theorem get_wav_from_txt_exactly_one:
  "(get_wav_from_txt fs p wav_dir = Inr w)
     = (glob fs (wav_dir @ [parent_name p]) (stem p @ ascii ''-[0-9]*.wav'') = [w])
   \<and> (length (glob fs (wav_dir @ [parent_name p]) (stem p @ ascii ''-[0-9]*.wav'')) \<noteq> 1
        \<longrightarrow> get_wav_from_txt fs p wav_dir = Inl ValueError)
   \<and> (transcript_type_arg a \<in> {ascii ''tailo'', ascii ''taiwen'', ascii ''tailonum''}
        \<and> p \<in> set (rglob fs (TAT_root a @ [ascii ''json'']) (ascii ''*.json''))
        \<and> length (glob fs (TAT_root a @ [ascii ''condenser'', ascii ''wav'', parent_name p])
                    (stem p @ ascii ''-[0-9]*.wav'')) \<noteq> 1
        \<longrightarrow> main fs whisper a = Inl ValueError)"
proof (intro conjI impI)
  show "(get_wav_from_txt fs p wav_dir = Inr w)
     = (glob fs (wav_dir @ [parent_name p]) (stem p @ ascii ''-[0-9]*.wav'') = [w])"
    by (auto simp: get_wav_from_txt_cases split: list.splits)
next
  assume "length (glob fs (wav_dir @ [parent_name p]) (stem p @ ascii ''-[0-9]*.wav'')) \<noteq> 1"
  then show "get_wav_from_txt fs p wav_dir = Inl ValueError"
    by (auto simp: get_wav_from_txt_cases split: list.splits)
next
  assume a: "transcript_type_arg a \<in> {ascii ''tailo'', ascii ''taiwen'', ascii ''tailonum''}
        \<and> p \<in> set (rglob fs (TAT_root a @ [ascii ''json'']) (ascii ''*.json''))
        \<and> length (glob fs (TAT_root a @ [ascii ''condenser'', ascii ''wav'', parent_name p])
                    (stem p @ ascii ''-[0-9]*.wav'')) \<noteq> 1"
  then have "get_wav_from_txt fs p (TAT_root a @ [ascii ''condenser'', ascii ''wav'']) = Inl ValueError"
    by (auto simp: get_wav_from_txt_cases split: list.splits)
  with a have "map_result (\<lambda>p. get_wav_from_txt fs p (TAT_root a @ [ascii ''condenser'', ascii ''wav'']))
          (rglob fs (TAT_root a @ [ascii ''json'']) (ascii ''*.json'')) = Inl ValueError"
    by (intro map_result_abort [where x = p]) (auto dest: get_wav_from_txt_error)
  with a show "main fs whisper a = Inl ValueError"
    by (auto simp: main_def Let_def)
qed

theorem get_wav_from_txt_exactly_one_witness:
  "get_wav_from_txt duplicate_fs (last example_paths) [ascii ''TAT'', ascii ''condenser'', ascii ''wav'']
     = Inl ValueError
   \<and> main duplicate_fs example_tok (example_args (ascii ''tailonum'')) = Inl ValueError"
proof -
  have h1: "length (glob duplicate_fs ([ascii ''TAT'', ascii ''condenser'', ascii ''wav'']
              @ [parent_name (last example_paths)])
              (stem (last example_paths) @ ascii ''-[0-9]*.wav'')) \<noteq> 1"
    by code_simp
  have h2: "transcript_type_arg (example_args (ascii ''tailonum''))
          \<in> {ascii ''tailo'', ascii ''taiwen'', ascii ''tailonum''}
        \<and> last example_paths
          \<in> set (rglob duplicate_fs (TAT_root (example_args (ascii ''tailonum'')) @ [ascii ''json''])
                 (ascii ''*.json''))
        \<and> length (glob duplicate_fs
                    (TAT_root (example_args (ascii ''tailonum''))
                      @ [ascii ''condenser'', ascii ''wav'', parent_name (last example_paths)])
                    (stem (last example_paths) @ ascii ''-[0-9]*.wav'')) \<noteq> 1"
    by code_simp
  from h1 h2 get_wav_from_txt_exactly_one
    [of duplicate_fs "last example_paths" "[ascii ''TAT'', ascii ''condenser'', ascii ''wav'']" "[]"
        "example_args (ascii ''tailonum'')" example_tok]
  show ?thesis by blast
qed

lemma check_chars_step:
  "check_chars cs cleaned bad_count = (r, bad_count', out)
    \<Longrightarrow> (r \<noteq> None \<and> bad_count' = bad_count) \<or> (r = None \<and> bad_count' = bad_count + 1)"
  by (induction cs) (auto split: if_splits)

lemma validate_transcription_step:
  assumes "validate_transcription t ty bad_count tok = Inr (r, bad_count', out)"
  shows "(r \<noteq> None \<and> bad_count' = bad_count) \<or> (r = None \<and> bad_count' = bad_count + 1)"
proof -
  consider (num) "ty = TAILONUM" | (wen) "ty = TAIWEN" | (other) "ty \<noteq> TAILONUM" "ty \<noteq> TAIWEN"
    by blast
  then show ?thesis
  proof cases
    case num
    with assms have "check_chars (spec_cleaned TAILONUM t) (spec_cleaned TAILONUM t) bad_count
        = (r, bad_count', out)"
      by (simp add: validate_TAILONUM)
    then show ?thesis by (rule check_chars_step)
  next
    case wen
    show ?thesis
    proof (cases tok)
      case None
      with assms wen show ?thesis
        by (simp add: validate_transcription_def TAIWEN_neq dict_get_variant_map Let_def)
    next
      case (Some k)
      with assms wen show ?thesis
        by (auto simp: validate_TAIWEN split: if_splits)
    qed
  next
    case other
    with assms show ?thesis by (simp add: validate_transcription_def)
  qed
qed

lemma validate_rows_single:
  assumes "validate_rows ty tok [(w, t)] bad_count buf printed = Inr (buf', bad_count', printed')"
  shows "(\<exists>r. buf' = buf @ [(w, r)] \<and> bad_count' = bad_count)
       \<or> (buf' = buf \<and> bad_count' = bad_count + 1)"
proof (cases "validate_transcription t ty bad_count tok")
  case (Inl e)
  with assms show ?thesis by simp
next
  case (Inr v)
  obtain r c out where v: "v = (r, c, out)" by (cases v)
  from Inr v have "(r \<noteq> None \<and> c = bad_count) \<or> (r = None \<and> c = bad_count + 1)"
    by (intro validate_transcription_step) simp
  with assms Inr v show ?thesis by (cases r) auto
qed

lemma validate_rows_count:
  "validate_rows ty tok rows bad_count buf printed = Inr (buf', bad_count', printed')
    \<Longrightarrow> int (length buf') + bad_count' = int (length buf) + bad_count + int (length rows)"
proof (induction rows arbitrary: bad_count buf printed)
  case Nil
  then show ?case by simp
next
  case (Cons row rows)
  obtain w t where row: "row = (w, t)" by (cases row)
  show ?case
  proof (cases "validate_transcription t ty bad_count tok")
    case (Inl e)
    with Cons.prems row show ?thesis by simp
  next
    case (Inr v)
    obtain r c out where v: "v = (r, c, out)" by (cases v)
    from Inr v have step: "(r \<noteq> None \<and> c = bad_count) \<or> (r = None \<and> c = bad_count + 1)"
      by (intro validate_transcription_step) simp
    from Cons.prems row Inr v
    have "validate_rows ty tok rows c (case r of None \<Rightarrow> buf | Some x \<Rightarrow> buf @ [(w, x)]) (printed @ out)
        = Inr (buf', bad_count', printed')"
      by simp
    then have "int (length buf') + bad_count'
        = int (length (case r of None \<Rightarrow> buf | Some x \<Rightarrow> buf @ [(w, x)])) + c + int (length rows)"
      by (rule Cons.IH)
    with step show ?thesis by (cases r) auto
  qed
qed

lemma main_Inr:
  assumes "main fs whisper a = Inr res"
  shows "\<exists>ty tok wavs trans.
           map_result (\<lambda>p. get_wav_from_txt fs p (TAT_root a @ [ascii ''condenser'', ascii ''wav'']))
              (rglob fs (TAT_root a @ [ascii ''json'']) (ascii ''*.json'')) = Inr wavs
         \<and> map_result (\<lambda>p. get_transcription_from_json fs p ty)
              (rglob fs (TAT_root a @ [ascii ''json'']) (ascii ''*.json'')) = Inr trans
         \<and> validate_rows ty tok (zip wavs trans) 0 [] [] = Inr res"
  using assms
  by (simp add: main_def Let_def split: if_splits sum.splits) blast+

text \<open>
  C6. One turn of the loop of \<open>main\<close> either appends exactly one row and leaves the bad
  count as it is, or appends no row and adds one to the bad count. When \<open>main\<close> completes
  for the TailoNumeric or the SinicizedTaiwanese variant, the number of rows plus the final
  bad count is the number of transcripts scanned.
\<close>

theorem main_rows_plus_rejections:
  "(validate_rows ty tok [(w, t)] bad_count buf printed = Inr (buf', bad_count', printed')
      \<longrightarrow> (\<exists>r. buf' = buf @ [(w, r)] \<and> bad_count' = bad_count)
          \<or> (buf' = buf \<and> bad_count' = bad_count + 1))
   \<and> (transcript_type_arg a \<in> {ascii ''tailonum'', ascii ''taiwen''}
        \<and> main fs whisper a = Inr (rows, final_bad_count, lines)
      \<longrightarrow> int (length rows) + final_bad_count
          = int (length (rglob fs (TAT_root a @ [ascii ''json'']) (ascii ''*.json''))))"
proof (intro conjI impI)
  assume "validate_rows ty tok [(w, t)] bad_count buf printed = Inr (buf', bad_count', printed')"
  then show "(\<exists>r. buf' = buf @ [(w, r)] \<and> bad_count' = bad_count)
          \<or> (buf' = buf \<and> bad_count' = bad_count + 1)"
    by (rule validate_rows_single)
next
  assume "transcript_type_arg a \<in> {ascii ''tailonum'', ascii ''taiwen''}
        \<and> main fs whisper a = Inr (rows, final_bad_count, lines)"
  then have "main fs whisper a = Inr (rows, final_bad_count, lines)" by (rule conjunct2)
  then obtain ty' tok' wavs trans where
    wavs: "map_result (\<lambda>p. get_wav_from_txt fs p (TAT_root a @ [ascii ''condenser'', ascii ''wav'']))
              (rglob fs (TAT_root a @ [ascii ''json'']) (ascii ''*.json'')) = Inr wavs"
    and trans: "map_result (\<lambda>p. get_transcription_from_json fs p ty')
              (rglob fs (TAT_root a @ [ascii ''json'']) (ascii ''*.json'')) = Inr trans"
    and loop: "validate_rows ty' tok' (zip wavs trans) 0 [] [] = Inr (rows, final_bad_count, lines)"
    using main_Inr by blast
  from wavs have lw: "length wavs = length (rglob fs (TAT_root a @ [ascii ''json'']) (ascii ''*.json''))"
    by (rule map_result_length)
  from trans have lt: "length trans = length (rglob fs (TAT_root a @ [ascii ''json'']) (ascii ''*.json''))"
    by (rule map_result_length)
  from loop have "int (length rows) + final_bad_count
      = int (length ([] :: (path \<times> pystr) list)) + 0 + int (length (zip wavs trans))"
    by (rule validate_rows_count)
  with lw lt show "int (length rows) + final_bad_count
          = int (length (rglob fs (TAT_root a @ [ascii ''json'']) (ascii ''*.json'')))"
    by simp
qed

theorem main_rows_plus_rejections_witness:
  "main example_fs example_tok (example_args (ascii ''tailonum''))
     = Inr ([([ascii ''TAT'', ascii ''condenser'', ascii ''wav'', ascii ''spk1'', ascii ''a-01.wav''],
              ascii ''m7-ji5.'')],
            1, [BadChar 1 0x2605 (ascii ''caf'' @ [0xE9, 0x2605] @ ascii ''.'')])
   \<and> int (length [([ascii ''TAT'', ascii ''condenser'', ascii ''wav'', ascii ''spk1'', ascii ''a-01.wav''],
                    ascii ''m7-ji5.'')]) + 1
       = int (length (rglob example_fs (TAT_root (example_args (ascii ''tailonum'')) @ [ascii ''json''])
                (ascii ''*.json'')))"
proof -
  have m: "main example_fs example_tok (example_args (ascii ''tailonum''))
     = Inr ([([ascii ''TAT'', ascii ''condenser'', ascii ''wav'', ascii ''spk1'', ascii ''a-01.wav''],
              ascii ''m7-ji5.'')],
            1, [BadChar 1 0x2605 (ascii ''caf'' @ [0xE9, 0x2605] @ ascii ''.'')])"
    by code_simp
  have t: "transcript_type_arg (example_args (ascii ''tailonum''))
      \<in> {ascii ''tailonum'', ascii ''taiwen''}"
    by code_simp
  from m t main_rows_plus_rejections
    [where a = "example_args (ascii ''tailonum'')" and fs = example_fs and whisper = example_tok
       and rows = "[([ascii ''TAT'', ascii ''condenser'', ascii ''wav'', ascii ''spk1'', ascii ''a-01.wav''],
              ascii ''m7-ji5.'')]"
       and final_bad_count = 1
       and lines = "[BadChar 1 0x2605 (ascii ''caf'' @ [0xE9, 0x2605] @ ascii ''.'')]"]
  show ?thesis by blast
qed

end
